theory Spec2Isabelle
  imports Main "HOL-Library.Word"
begin

unbundle bit_operations_syntax

section \<open>The PS/2 host of the Glasgow applet \<open>ps2-host\<close>\<close>

text \<open>
  The gateware of \<^verbatim>\<open>software/glasgow/applet/interface/ps2_host/__init__.py\<close> is a
  synchronous circuit in one clock domain. It is embedded as a step function on the
  record of its registers: one application of \<open>step\<close> is one clock tick. Every
  right-hand side of a synchronous assignment or of a \<^verbatim>\<open>NextValue\<close>/\<^verbatim>\<open>NextState\<close> reads the
  registers as they are before the tick. One-bit signals are \<open>bool\<close> (\<open>True\<close> is 1), wider
  signals are words of their width.
\<close>

subsection \<open>Frames\<close>

text \<open>\<^verbatim>\<open>frame_layout\<close>: start (1 bit), data (8 bits), parity (1 bit), stop (1 bit).\<close>

record frame =
  start :: bool
  data :: "8 word"
  parity :: bool
  stop :: bool

text \<open>
  \<^verbatim>\<open>Record.raw_bits()\<close> is the concatenation of the fields in layout order, the first
  field in the lowest bit: start is bit 0, data bits 1 to 8, parity bit 9, stop bit 10.
  \<open>raw_bits\<close> reads that vector, \<open>set_raw_bits\<close> is an assignment to it.
\<close>

definition raw_bits :: "frame \<Rightarrow> 11 word" where
  "raw_bits f =
     of_bool (start f) OR push_bit 1 (ucast (data f)) OR
     push_bit 9 (of_bool (parity f)) OR push_bit 10 (of_bool (stop f))"

definition set_raw_bits :: "11 word \<Rightarrow> frame" where
  "set_raw_bits w =
     \<lparr>start = bit w 0, data = ucast (drop_bit 1 w), parity = bit w 9, stop = bit w 10\<rparr>"

text \<open>
  \<^verbatim>\<open>reduce(operator.xor, frame.data)\<close>: iterating over an 8-bit signal yields its bits
  from bit 0 upwards, and \<open>reduce\<close> folds them from the left, starting with bit 0.
  On one-bit values exclusive or is \<open>\<noteq>\<close>.
\<close>

definition xor_reduce :: "8 word \<Rightarrow> bool" where
  "xor_reduce d = foldl (\<noteq>) (bit d 0) (map (bit d) [1..<8])"

definition check_frame :: "frame \<Rightarrow> bool" where
  "check_frame f \<longleftrightarrow>
     (start f = False) \<and> (parity f = (\<not> xor_reduce (data f))) \<and> (stop f = True)"

text \<open>\<^verbatim>\<open>prepare_frame\<close> is a list of four \<^verbatim>\<open>NextValue\<close>s, one per field of the frame.\<close>

definition prepare_frame :: "frame \<Rightarrow> 8 word \<Rightarrow> frame" where
  "prepare_frame f d =
     f\<lparr>start := False, data := d, parity := \<not> xor_reduce d, stop := True\<rparr>"

text \<open>
  The specification's words for the check: start is 0, stop is 1, and the parity bit is
  the odd parity of the data, that is, the number of set bits among the eight data bits
  and the parity bit is odd.
\<close>

definition set_bits :: "8 word \<Rightarrow> nat" where
  "set_bits d = length (filter (bit d) [0..<8])"

definition spec_check :: "frame \<Rightarrow> bool" where
  "spec_check f \<longleftrightarrow>
     \<not> start f \<and> odd (set_bits (data f) + of_bool (parity f)) \<and> stop f"

subsection \<open>The bus\<close>

text \<open>
  The registers of \<^verbatim>\<open>PS2Bus\<close>. Each \<^verbatim>\<open>MultiReg\<close> is a chain of two registers; its output
  (\<open>clock_i\<close>, \<open>data_i\<close>) is the second one, \<open>clock_reg0\<close> and \<open>data_reg0\<close> are the first.
\<close>

record ps2_bus =
  sample :: bool
  setup_sig :: bool
  clock_i :: bool
  clock_o :: bool
  data_i :: bool
  data_o :: bool
  clock_reg0 :: bool
  data_reg0 :: bool
  clock_s :: bool
  clock_r :: bool

text \<open>What the circuit reads in one tick: the two pads and the ports of the two FIFOs.\<close>

record inputs =
  pad_clock :: bool
  pad_data :: bool
  in_writable :: bool
  out_readable :: bool
  out_dout :: "8 word"

text \<open>What it drives: the two tristate pads and the ports of the two FIFOs.\<close>

record outputs =
  clock_t_o :: bool
  clock_t_oe :: bool
  data_t_o :: bool
  data_t_oe :: bool
  in_din :: "8 word"
  in_we :: bool
  out_re :: bool

definition bus_sync :: "ps2_bus \<Rightarrow> inputs \<Rightarrow> ps2_bus" where
  "bus_sync b inp =
     b\<lparr>clock_reg0 := pad_clock inp, clock_i := clock_reg0 b,
       data_reg0 := pad_data inp, data_i := data_reg0 b,
       clock_s := clock_i b,
       clock_r := clock_s b,
       sample := clock_r b \<and> \<not> clock_s b,
       setup_sig := \<not> clock_r b \<and> clock_s b\<rparr>"

subsection \<open>The two state machines\<close>

datatype rx_state = RX_IDLE | RX_BIT | RX_FRAME | RX_IDLE_WAIT

datatype tx_state = TX_IDLE | TX_REQUEST | TX_BIT | TX_ACK | TX_IDLE_WAIT

record host =
  bus :: ps2_bus
  rx_fsm :: rx_state
  tx_fsm :: tx_state
  rx_frame :: frame
  rx_bitno :: "4 word"
  tx_timer :: nat
  tx_frame :: frame
  tx_bitno :: "4 word"

text \<open>
  \<^verbatim>\<open>Signal(max=m)\<close> holds the values from 0 to \<open>m - 1\<close>. Its constructor takes 1
  from \<open>m\<close> and asserts that 0 is below the result, so it raises an AssertionError
  for \<open>m \<le> 1\<close>; otherwise the signal is as wide as \<open>m - 1\<close> needs.
\<close>

datatype error = AssertionError

fun bit_length :: "nat \<Rightarrow> nat" where
  "bit_length n = (if n = 0 then 0 else Suc (bit_length (n div 2)))"

declare bit_length.simps [simp del]

definition bits_for :: "nat \<Rightarrow> nat" where
  "bits_for n = (if n = 0 then 1 else bit_length n)"

definition signal_max :: "nat \<Rightarrow> error + nat" where
  "signal_max m = (if 0 < int m - 1 then Inr (bits_for (m - 1)) else Inl AssertionError)"

text \<open>
  The constructor of \<^verbatim>\<open>PS2HostSubtarget\<close> builds the circuit for a hold time
  \<open>request_cyc\<close>, a number of cycles. It fails where \<^verbatim>\<open>Signal(max=request_cyc)\<close>, the
  timer, fails. What it builds is determined by the hold time and the width of the
  timer: the timer is a \<open>nat\<close> below \<open>2 ^ tx_timer_bits\<close>, and \<^verbatim>\<open>tx_timer - 1\<close> wraps
  around in that width. The two bit counters are \<^verbatim>\<open>Signal(max=11)\<close>, four bits wide.
\<close>

record subtarget =
  request_cyc :: nat
  tx_timer_bits :: nat


text \<open>
  The receiving machine. \<open>s\<close> holds the registers before the tick, which every condition
  and right-hand side reads; \<open>n\<close> collects the registers after the tick. A register that
  no active statement assigns keeps its value.
\<close>

definition rx_act :: "host \<Rightarrow> inputs \<Rightarrow> host \<Rightarrow> host" where
  "rx_act s inp n =
     (case rx_fsm s of
        RX_IDLE \<Rightarrow>
          if tx_fsm s = TX_IDLE \<and> \<not> clock_i (bus s) then n\<lparr>rx_fsm := RX_BIT\<rparr> else n
      | RX_BIT \<Rightarrow>
          if sample (bus s) then
            (let n1 = n\<lparr>rx_frame :=
                          set_raw_bits (drop_bit 1 (raw_bits (rx_frame s)) OR
                                        push_bit 10 (of_bool (data_i (bus s)))),
                        rx_bitno := rx_bitno s + 1\<rparr>
             in if rx_bitno s = 10 then n1\<lparr>rx_bitno := 0, rx_fsm := RX_FRAME\<rparr> else n1)
          else n
      | RX_FRAME \<Rightarrow>
          if check_frame (rx_frame s) then
            (if in_writable inp then n\<lparr>rx_fsm := RX_IDLE_WAIT\<rparr> else n)
          else n\<lparr>rx_fsm := RX_IDLE_WAIT\<rparr>
      | RX_IDLE_WAIT \<Rightarrow>
          if clock_i (bus s) then n\<lparr>rx_fsm := RX_IDLE\<rparr> else n)"

text \<open>The transmitting machine of the circuit \<open>sub\<close>.\<close>

definition tx_act :: "subtarget \<Rightarrow> host \<Rightarrow> inputs \<Rightarrow> host \<Rightarrow> host" where
  "tx_act sub s inp n =
     (case tx_fsm s of
        TX_IDLE \<Rightarrow>
          if rx_fsm s = RX_IDLE \<and> clock_i (bus s) then
            (if out_readable inp then
               n\<lparr>bus := (bus n)\<lparr>clock_o := False\<rparr>,
                 tx_timer := (request_cyc sub - 1) mod 2 ^ tx_timer_bits sub,
                 tx_fsm := TX_REQUEST\<rparr>
             else n)
          else n
      | TX_REQUEST \<Rightarrow>
          (let n1 = n\<lparr>tx_timer := (tx_timer s + 2 ^ tx_timer_bits sub - 1)
                                      mod 2 ^ tx_timer_bits sub\<rparr>
           in if tx_timer s = 0 then
                n1\<lparr>bus := (bus n1)\<lparr>clock_o := True, data_o := False\<rparr>,
                   tx_frame := prepare_frame (tx_frame s) (out_dout inp),
                   tx_fsm := TX_BIT\<rparr>
              else n1)
      | TX_BIT \<Rightarrow>
          if setup_sig (bus s) then
            (let n1 = n\<lparr>bus := (bus n)\<lparr>data_o := bit (raw_bits (tx_frame s)) 0\<rparr>,
                        tx_frame := set_raw_bits (drop_bit 1 (raw_bits (tx_frame s))),
                        tx_bitno := tx_bitno s + 1\<rparr>
             in if tx_bitno s = 10 then n1\<lparr>tx_bitno := 0, tx_fsm := TX_ACK\<rparr> else n1)
          else n
      | TX_ACK \<Rightarrow>
          if sample (bus s) then n\<lparr>tx_fsm := TX_IDLE_WAIT\<rparr> else n
      | TX_IDLE_WAIT \<Rightarrow>
          if clock_i (bus s) then n\<lparr>tx_fsm := TX_IDLE\<rparr> else n)"

text \<open>One clock tick: the bus registers, then the assignments of the two machines.\<close>

definition step :: "subtarget \<Rightarrow> host \<Rightarrow> inputs \<Rightarrow> host" where
  "step sub s inp =
     tx_act sub s inp (rx_act s inp (s\<lparr>bus := bus_sync (bus s) inp\<rparr>))"

text \<open>
  The combinational outputs of a tick: the pads never drive a value other than 0 and are
  enabled while the output register is low; a FIFO port that no active statement
  assigns is 0.
\<close>

definition outputs_of :: "host \<Rightarrow> inputs \<Rightarrow> outputs" where
  "outputs_of s inp =
     (let push = (rx_fsm s = RX_FRAME \<and> check_frame (rx_frame s) \<and> in_writable inp)
      in \<lparr>clock_t_o = False,
          clock_t_oe = (\<not> clock_o (bus s)),
          data_t_o = False,
          data_t_oe = (\<not> data_o (bus s)),
          in_din = (if push then data (rx_frame s) else 0),
          in_we = push,
          out_re = (tx_fsm s = TX_ACK \<and> sample (bus s) \<and> \<not> data_i (bus s))\<rparr>)"

text \<open>The registers after reset: the lines released and idle, both machines in IDLE.\<close>

definition reset_bus :: ps2_bus where
  "reset_bus =
     \<lparr>sample = False, setup_sig = False, clock_i = True, clock_o = True,
      data_i = True, data_o = True, clock_reg0 = True, data_reg0 = True,
      clock_s = True, clock_r = True\<rparr>"

definition reset_state :: host where
  "reset_state =
     \<lparr>bus = reset_bus, rx_fsm = RX_IDLE, tx_fsm = TX_IDLE,
      rx_frame = set_raw_bits 0, rx_bitno = 0, tx_timer = 0,
      tx_frame = set_raw_bits 0, tx_bitno = 0\<rparr>"

fun run :: "subtarget \<Rightarrow> host \<Rightarrow> inputs list \<Rightarrow> host" where
  "run sub s [] = s"
| "run sub s (inp # inps) = run sub (step sub s inp) inps"

inductive reachable :: "subtarget \<Rightarrow> host \<Rightarrow> bool" for sub :: subtarget where
  reachable_reset: "reachable sub reset_state"
| reachable_step: "reachable sub s \<Longrightarrow> reachable sub (step sub s inp)"

subsection \<open>Runs and what is observed along them\<close>



text \<open>The number of ticks of a run that see the \<open>sample\<close> pulse asserted.\<close>

fun samples :: "subtarget \<Rightarrow> host \<Rightarrow> inputs list \<Rightarrow> nat" where
  "samples sub s [] = 0"
| "samples sub s (inp # inps) =
     of_bool (sample (bus s)) + samples sub (step sub s inp) inps"

text \<open>The levels of the data line that those ticks read, the first one first.\<close>

fun sampled :: "subtarget \<Rightarrow> host \<Rightarrow> inputs list \<Rightarrow> bool list" where
  "sampled sub s [] = []"
| "sampled sub s (inp # inps) =
     (if sample (bus s) then [data_i (bus s)] else []) @
     sampled sub (step sub s inp) inps"

subsection \<open>The host on its bus and its outbound queue\<close>

text \<open>
  Modelled from the spec: the outbound byte queue and the open-drain lines, which are not
  part of the gateware of the applet. The queue has data when it is not empty, shows its
  oldest byte, and drops it when the host commits (\<open>out_re\<close>); nothing is added to it
  during a run. A line is high only when both the peripheral (\<open>pad_clock\<close>, \<open>pad_data\<close>
  of the input: what the peripheral drives) and the host release it.
\<close>

record system =
  core :: host
  out_fifo :: "8 word list"

definition sys_inputs :: "system \<Rightarrow> inputs \<Rightarrow> inputs" where
  "sys_inputs sy inp =
     inp\<lparr>pad_clock := pad_clock inp \<and> clock_o (bus (core sy)),
         pad_data := pad_data inp \<and> data_o (bus (core sy)),
         out_readable := (out_fifo sy \<noteq> []),
         out_dout := (case out_fifo sy of [] \<Rightarrow> 0 | b # _ \<Rightarrow> b)\<rparr>"

definition sys_step :: "subtarget \<Rightarrow> system \<Rightarrow> inputs \<Rightarrow> system" where
  "sys_step sub sy inp =
     (let i = sys_inputs sy inp
      in \<lparr>core = step sub (core sy) i,
          out_fifo = (if out_re (outputs_of (core sy) i) then tl (out_fifo sy)
                      else out_fifo sy)\<rparr>)"

fun sys_run :: "subtarget \<Rightarrow> system \<Rightarrow> inputs list \<Rightarrow> system" where
  "sys_run sub sy [] = sy"
| "sys_run sub sy (inp # inps) = sys_run sub (sys_step sub sy inp) inps"

subsection \<open>Scripted peripherals\<close>

text \<open>
  What a peripheral drives in one tick, with the inbound queue full. A peripheral holds
  each bit for four ticks: the clock low for two, then high for two.
\<close>

definition pads :: "bool \<Rightarrow> bool \<Rightarrow> inputs" where
  "pads c d =
     \<lparr>pad_clock = c, pad_data = d, in_writable = False, out_readable = False, out_dout = 0\<rparr>"

definition device_bit :: "bool \<Rightarrow> inputs list" where
  "device_bit b = [pads False b, pads False b, pads True b, pads True b]"

definition device_frame :: "bool list \<Rightarrow> inputs list" where
  "device_frame bs = concat (map device_bit bs)"

text \<open>A tick with both lines released in which the outbound queue offers a byte.\<close>

definition offer :: "8 word \<Rightarrow> inputs" where
  "offer b =
     \<lparr>pad_clock = True, pad_data = True, in_writable = True, out_readable = True,
      out_dout = b\<rparr>"

text \<open>The frame of the byte 0xFA: start, the data bits from bit 0 upwards, parity, stop.\<close>

definition frame_FA :: "bool list" where
  "frame_FA = [False, False, True, False, True, True, True, True, True, True, True]"

text \<open>The same frame with its parity bit flipped.\<close>

definition frame_FA_bad :: "bool list" where
  "frame_FA_bad = [False, False, True, False, True, True, True, True, True, False, True]"

text \<open>
  A peripheral that takes a byte from the host: it waits eight ticks, gives ten clock
  pulses of eight ticks each with its data line released, and then pulls the clock low
  for the acknowledge bit, with \<open>d\<close> on its data line (low to acknowledge). After these
  92 ticks the host sees the \<open>sample\<close> pulse of the acknowledge bit.
\<close>

definition device_clock :: "bool \<Rightarrow> inputs list" where
  "device_clock d = replicate 4 (pads False d) @ replicate 4 (pads True d)"

definition tx_script :: "bool \<Rightarrow> inputs list" where
  "tx_script d =
     replicate 8 (pads True True) @ concat (replicate 10 (device_clock True)) @
     replicate 4 (pads False d)"

text \<open>The circuits that the constructor builds for the hold times 2 and 3.\<close>

definition cyc2 :: subtarget where
  "cyc2 = \<lparr>request_cyc = 2, tx_timer_bits = 1\<rparr>"

definition cyc3 :: subtarget where
  "cyc3 = \<lparr>request_cyc = 3, tx_timer_bits = 2\<rparr>"

text \<open>The system after reset with the bytes \<open>q\<close> in the outbound queue.\<close>

definition sys_reset :: "8 word list \<Rightarrow> system" where
  "sys_reset q = \<lparr>core = reset_state, out_fifo = q\<rparr>"

section \<open>The frame codec\<close>

lemma xor_reduce_bits:
  "xor_reduce d \<longleftrightarrow>
     (((((((bit d 0 \<noteq> bit d 1) \<noteq> bit d 2) \<noteq> bit d 3) \<noteq> bit d 4) \<noteq> bit d 5) \<noteq> bit d 6)
        \<noteq> bit d 7)"
proof -
  have "[1..<8] = [1, 2, 3, 4, 5, 6, 7::nat]"
    by (simp add: upt_rec)
  then show ?thesis
    by (simp add: xor_reduce_def)
qed

lemma set_bits_sum:
  "set_bits d =
     of_bool (bit d 0) + of_bool (bit d 1) + of_bool (bit d 2) + of_bool (bit d 3) +
     of_bool (bit d 4) + of_bool (bit d 5) + of_bool (bit d 6) + of_bool (bit d 7)"
proof -
  have "[0..<8] = [0, 1, 2, 3, 4, 5, 6, 7::nat]"
    by (simp add: upt_rec)
  then show ?thesis
    by (simp add: set_bits_def)
qed

lemma xor_reduce_odd: "xor_reduce d \<longleftrightarrow> odd (set_bits d)"
  unfolding xor_reduce_bits set_bits_sum
  by (cases "bit d 0"; cases "bit d 1"; cases "bit d 2"; cases "bit d 3";
      cases "bit d 4"; cases "bit d 5"; cases "bit d 6"; cases "bit d 7") simp_all

lemma raw_bits_bit_raw:
  "bit (raw_bits f) i \<longleftrightarrow>
     (i = 0 \<and> start f) \<or> (1 \<le> i \<and> i < 11 \<and> i - 1 < 11 \<and> bit (data f) (i - 1)) \<or>
     (9 \<le> i \<and> i < 11 \<and> i - 9 = 0 \<and> parity f) \<or>
     (10 \<le> i \<and> i < 11 \<and> i - 10 = 0 \<and> stop f)"
  by (simp only: raw_bits_def bit_or_iff bit_push_bit_iff bit_ucast_iff bit_of_bool_iff
        possible_bit_word len_bit0 len_num1 len_bit1 conj_assoc) simp

lemma data_bit_range: "bit (d :: 8 word) k \<Longrightarrow> k < 8"
  using bit_imp_le_length [of d k] by simp

lemma raw_bits_bit:
  "bit (raw_bits f) i \<longleftrightarrow>
     (i = 0 \<and> start f) \<or> (1 \<le> i \<and> i \<le> 8 \<and> bit (data f) (i - 1)) \<or>
     (i = 9 \<and> parity f) \<or> (i = 10 \<and> stop f)"
proof -
  consider "i = 0" | "1 \<le> i \<and> i \<le> 8" | "i = 9" | "i = 10" | "11 \<le> i"
    by linarith
  then show ?thesis
  proof cases
    case 1
    then show ?thesis by (simp add: raw_bits_bit_raw)
  next
    case 2
    then have "i - 1 < 11" "1 \<le> i" "i \<le> 8" by auto
    then show ?thesis by (simp add: raw_bits_bit_raw)
  next
    case 3
    then show ?thesis
      using data_bit_range [of "data f" 8] by (auto simp add: raw_bits_bit_raw)
  next
    case 4
    then show ?thesis
      using data_bit_range [of "data f" 9] by (auto simp add: raw_bits_bit_raw)
  next
    case 5
    then show ?thesis by (simp add: raw_bits_bit_raw)
  qed
qed

lemma raw_bits_set_raw_bits [simp]: "raw_bits (set_raw_bits w) = w"
proof (rule bit_word_eqI)
  fix i assume "i < LENGTH(11)"
  then have "i < 11" by simp
  then consider "i = 0" | "1 \<le> i \<and> i \<le> 8" | "i = 9" | "i = 10"
    by linarith
  then show "bit (raw_bits (set_raw_bits w)) i = bit w i"
    by cases (auto simp add: raw_bits_bit set_raw_bits_def bit_ucast_iff bit_drop_bit_eq)
qed

lemma set_raw_bits_raw_bits [simp]: "set_raw_bits (raw_bits f) = f"
proof -
  have "ucast (drop_bit 1 (raw_bits f)) = data f"
    by (rule bit_word_eqI) (simp add: bit_ucast_iff bit_drop_bit_eq raw_bits_bit)
  then show ?thesis
    by (simp add: set_raw_bits_def raw_bits_bit)
qed

lemma raw_data_bit:
  fixes w :: "11 word"
  assumes "j < 8"
  shows "bit (data (set_raw_bits w)) j = bit w (Suc j)"
  using assms by (simp add: set_raw_bits_def bit_ucast_iff bit_drop_bit_eq)

text \<open>
  Claim C4. For every frame, \<open>check_frame\<close> is true exactly when the start bit is 0, the
  stop bit is 1 and the parity bit is the odd parity of the eight data bits: the
  complement of their exclusive or, so that data and parity bit together have an odd
  number of set bits. On the 11-bit vector of the frame these are bit 0, bit 10, bit 9
  and bits 1 to 8. It is a total predicate: a mismatch is the value \<open>False\<close>.
\<close>

theorem check_frame_iff_spec_check:
  "(check_frame f \<longleftrightarrow> spec_check f) \<and>
   (check_frame f \<longleftrightarrow>
      start f = False \<and>
      parity f = (\<not> (((((((bit (data f) 0 \<noteq> bit (data f) 1) \<noteq> bit (data f) 2)
                   \<noteq> bit (data f) 3) \<noteq> bit (data f) 4) \<noteq> bit (data f) 5)
                   \<noteq> bit (data f) 6) \<noteq> bit (data f) 7)) \<and>
      stop f = True) \<and>
   (check_frame (set_raw_bits w) \<longleftrightarrow>
      bit w 0 = False \<and>
      bit w 9 = (\<not> (((((((bit w 1 \<noteq> bit w 2) \<noteq> bit w 3) \<noteq> bit w 4) \<noteq> bit w 5)
                   \<noteq> bit w 6) \<noteq> bit w 7) \<noteq> bit w 8)) \<and>
      bit w 10 = True)"
proof -
  have a: "check_frame f \<longleftrightarrow> spec_check f"
    by (auto simp add: check_frame_def spec_check_def xor_reduce_odd)
  have b: "check_frame f \<longleftrightarrow>
      start f = False \<and>
      parity f = (\<not> (((((((bit (data f) 0 \<noteq> bit (data f) 1) \<noteq> bit (data f) 2)
                   \<noteq> bit (data f) 3) \<noteq> bit (data f) 4) \<noteq> bit (data f) 5)
                   \<noteq> bit (data f) 6) \<noteq> bit (data f) 7)) \<and>
      stop f = True"
    by (simp only: check_frame_def xor_reduce_bits)
  have c: "check_frame (set_raw_bits w) \<longleftrightarrow>
      bit w 0 = False \<and>
      bit w 9 = (\<not> (((((((bit w 1 \<noteq> bit w 2) \<noteq> bit w 3) \<noteq> bit w 4) \<noteq> bit w 5)
                   \<noteq> bit w 6) \<noteq> bit w 7) \<noteq> bit w 8)) \<and>
      bit w 10 = True"
  proof -
    have "bit (data (set_raw_bits w)) 0 = bit w 1" "bit (data (set_raw_bits w)) 1 = bit w 2"
      "bit (data (set_raw_bits w)) 2 = bit w 3" "bit (data (set_raw_bits w)) 3 = bit w 4"
      "bit (data (set_raw_bits w)) 4 = bit w 5" "bit (data (set_raw_bits w)) 5 = bit w 6"
      "bit (data (set_raw_bits w)) 6 = bit w 7" "bit (data (set_raw_bits w)) 7 = bit w 8"
      using raw_data_bit [of 0 w] raw_data_bit [of 1 w] raw_data_bit [of 2 w]
        raw_data_bit [of 3 w] raw_data_bit [of 4 w] raw_data_bit [of 5 w]
        raw_data_bit [of 6 w] raw_data_bit [of 7 w]
      by (simp_all add: eval_nat_numeral)
    moreover have "start (set_raw_bits w) = bit w 0" "parity (set_raw_bits w) = bit w 9"
      "stop (set_raw_bits w) = bit w 10"
      by (simp_all add: set_raw_bits_def)
    ultimately show ?thesis
      by (simp only: check_frame_def xor_reduce_bits)
  qed
  show ?thesis
    by (rule conjI [OF a conjI [OF b c]])
qed

text \<open>
  Claim C9. For every byte \<open>b\<close>, the frame that \<open>prepare_frame\<close> builds has start 0,
  the data \<open>b\<close>, as parity the complement of the exclusive or of the bits of \<open>b\<close>, and
  stop 1, whatever the frame register held before; and it passes \<open>check_frame\<close>.
\<close>

theorem check_frame_prepare_frame:
  "check_frame (prepare_frame f b) \<and>
   start (prepare_frame f b) = False \<and>
   data (prepare_frame f b) = b \<and>
   parity (prepare_frame f b) =
     (\<not> (((((((bit b 0 \<noteq> bit b 1) \<noteq> bit b 2) \<noteq> bit b 3) \<noteq> bit b 4) \<noteq> bit b 5)
           \<noteq> bit b 6) \<noteq> bit b 7)) \<and>
   stop (prepare_frame f b) = True"
proof -
  have "check_frame (prepare_frame f b)"
    by (simp add: check_frame_def prepare_frame_def)
  moreover have "parity (prepare_frame f b) =
     (\<not> (((((((bit b 0 \<noteq> bit b 1) \<noteq> bit b 2) \<noteq> bit b 3) \<noteq> bit b 4) \<noteq> bit b 5)
           \<noteq> bit b 6) \<noteq> bit b 7))"
    by (simp add: prepare_frame_def xor_reduce_bits)
  moreover have "start (prepare_frame f b) = False" "data (prepare_frame f b) = b"
    "stop (prepare_frame f b) = True"
    by (simp_all add: prepare_frame_def)
  ultimately show ?thesis
    by (intro conjI)
qed

section \<open>One tick, register by register\<close>

text \<open>What each machine assigns to each register in a tick.\<close>

lemma rx_act_frame:
  "bus (rx_act s inp n) = bus n"
  "tx_fsm (rx_act s inp n) = tx_fsm n"
  "tx_timer (rx_act s inp n) = tx_timer n"
  "tx_frame (rx_act s inp n) = tx_frame n"
  "tx_bitno (rx_act s inp n) = tx_bitno n"
  by (cases "rx_fsm s"; simp add: rx_act_def Let_def)+

lemma rx_act_rx_fsm:
  "rx_fsm (rx_act s inp n) =
     (case rx_fsm s of
        RX_IDLE \<Rightarrow> if tx_fsm s = TX_IDLE \<and> \<not> clock_i (bus s) then RX_BIT else rx_fsm n
      | RX_BIT \<Rightarrow> if sample (bus s) \<and> rx_bitno s = 10 then RX_FRAME else rx_fsm n
      | RX_FRAME \<Rightarrow>
          if check_frame (rx_frame s) \<and> \<not> in_writable inp then rx_fsm n else RX_IDLE_WAIT
      | RX_IDLE_WAIT \<Rightarrow> if clock_i (bus s) then RX_IDLE else rx_fsm n)"
  by (cases "rx_fsm s"; simp add: rx_act_def Let_def)

lemma rx_act_rx_bitno:
  "rx_bitno (rx_act s inp n) =
     (if rx_fsm s = RX_BIT \<and> sample (bus s)
      then (if rx_bitno s = 10 then 0 else rx_bitno s + 1) else rx_bitno n)"
  by (cases "rx_fsm s"; simp add: rx_act_def Let_def)

lemma rx_act_rx_frame:
  "rx_frame (rx_act s inp n) =
     (if rx_fsm s = RX_BIT \<and> sample (bus s)
      then set_raw_bits (drop_bit 1 (raw_bits (rx_frame s)) OR
                         push_bit 10 (of_bool (data_i (bus s))))
      else rx_frame n)"
  by (cases "rx_fsm s"; simp add: rx_act_def Let_def)

lemma tx_act_frame:
  "rx_fsm (tx_act c s inp n) = rx_fsm n"
  "rx_frame (tx_act c s inp n) = rx_frame n"
  "rx_bitno (tx_act c s inp n) = rx_bitno n"
  "sample (bus (tx_act c s inp n)) = sample (bus n)"
  "setup_sig (bus (tx_act c s inp n)) = setup_sig (bus n)"
  "clock_i (bus (tx_act c s inp n)) = clock_i (bus n)"
  "data_i (bus (tx_act c s inp n)) = data_i (bus n)"
  "clock_reg0 (bus (tx_act c s inp n)) = clock_reg0 (bus n)"
  "data_reg0 (bus (tx_act c s inp n)) = data_reg0 (bus n)"
  "clock_s (bus (tx_act c s inp n)) = clock_s (bus n)"
  "clock_r (bus (tx_act c s inp n)) = clock_r (bus n)"
  by (cases "tx_fsm s"; simp add: tx_act_def Let_def)+

lemma tx_act_tx_fsm:
  "tx_fsm (tx_act c s inp n) =
     (case tx_fsm s of
        TX_IDLE \<Rightarrow>
          if rx_fsm s = RX_IDLE \<and> clock_i (bus s) \<and> out_readable inp then TX_REQUEST
          else tx_fsm n
      | TX_REQUEST \<Rightarrow> if tx_timer s = 0 then TX_BIT else tx_fsm n
      | TX_BIT \<Rightarrow> if setup_sig (bus s) \<and> tx_bitno s = 10 then TX_ACK else tx_fsm n
      | TX_ACK \<Rightarrow> if sample (bus s) then TX_IDLE_WAIT else tx_fsm n
      | TX_IDLE_WAIT \<Rightarrow> if clock_i (bus s) then TX_IDLE else tx_fsm n)"
  by (cases "tx_fsm s"; simp add: tx_act_def Let_def)

lemma tx_act_tx_bitno:
  "tx_bitno (tx_act c s inp n) =
     (if tx_fsm s = TX_BIT \<and> setup_sig (bus s)
      then (if tx_bitno s = 10 then 0 else tx_bitno s + 1) else tx_bitno n)"
  by (cases "tx_fsm s"; simp add: tx_act_def Let_def)

lemma tx_act_tx_frame:
  "tx_frame (tx_act c s inp n) =
     (if tx_fsm s = TX_REQUEST \<and> tx_timer s = 0 then prepare_frame (tx_frame s) (out_dout inp)
      else if tx_fsm s = TX_BIT \<and> setup_sig (bus s)
      then set_raw_bits (drop_bit 1 (raw_bits (tx_frame s)))
      else tx_frame n)"
  by (cases "tx_fsm s"; simp add: tx_act_def Let_def)

lemma tx_act_tx_timer:
  "tx_timer (tx_act c s inp n) =
     (if tx_fsm s = TX_IDLE \<and> rx_fsm s = RX_IDLE \<and> clock_i (bus s) \<and> out_readable inp
      then (request_cyc c - 1) mod 2 ^ tx_timer_bits c
      else if tx_fsm s = TX_REQUEST then (tx_timer s + 2 ^ tx_timer_bits c - 1) mod 2 ^ tx_timer_bits c
      else tx_timer n)"
  by (cases "tx_fsm s"; simp add: tx_act_def Let_def)

lemma tx_act_clock_o:
  "clock_o (bus (tx_act c s inp n)) =
     (if tx_fsm s = TX_IDLE \<and> rx_fsm s = RX_IDLE \<and> clock_i (bus s) \<and> out_readable inp
      then False
      else if tx_fsm s = TX_REQUEST \<and> tx_timer s = 0 then True
      else clock_o (bus n))"
  by (cases "tx_fsm s"; simp add: tx_act_def Let_def)

lemma tx_act_data_o:
  "data_o (bus (tx_act c s inp n)) =
     (if tx_fsm s = TX_REQUEST \<and> tx_timer s = 0 then False
      else if tx_fsm s = TX_BIT \<and> setup_sig (bus s) then bit (raw_bits (tx_frame s)) 0
      else data_o (bus n))"
  by (cases "tx_fsm s"; simp add: tx_act_def Let_def)

lemmas act_simps =
  rx_act_frame rx_act_rx_fsm rx_act_rx_bitno rx_act_rx_frame
  tx_act_frame tx_act_tx_fsm tx_act_tx_bitno tx_act_tx_frame tx_act_tx_timer
  tx_act_clock_o tx_act_data_o

lemma step_bus_regs:
  "sample (bus (step c s inp)) = (clock_r (bus s) \<and> \<not> clock_s (bus s))"
  "setup_sig (bus (step c s inp)) = (\<not> clock_r (bus s) \<and> clock_s (bus s))"
  "clock_s (bus (step c s inp)) = clock_i (bus s)"
  "clock_r (bus (step c s inp)) = clock_s (bus s)"
  "clock_i (bus (step c s inp)) = clock_reg0 (bus s)"
  "clock_reg0 (bus (step c s inp)) = pad_clock inp"
  "data_i (bus (step c s inp)) = data_reg0 (bus s)"
  "data_reg0 (bus (step c s inp)) = pad_data inp"
  by (simp_all add: step_def act_simps bus_sync_def)

lemma step_rx_fsm:
  "rx_fsm (step c s inp) =
     (case rx_fsm s of
        RX_IDLE \<Rightarrow> if tx_fsm s = TX_IDLE \<and> \<not> clock_i (bus s) then RX_BIT else RX_IDLE
      | RX_BIT \<Rightarrow> if sample (bus s) \<and> rx_bitno s = 10 then RX_FRAME else RX_BIT
      | RX_FRAME \<Rightarrow>
          if check_frame (rx_frame s) \<and> \<not> in_writable inp then RX_FRAME else RX_IDLE_WAIT
      | RX_IDLE_WAIT \<Rightarrow> if clock_i (bus s) then RX_IDLE else RX_IDLE_WAIT)"
  by (cases "rx_fsm s"; simp add: step_def act_simps)

lemma step_rx_bitno:
  "rx_bitno (step c s inp) =
     (if rx_fsm s = RX_BIT \<and> sample (bus s)
      then (if rx_bitno s = 10 then 0 else rx_bitno s + 1) else rx_bitno s)"
  by (simp add: step_def act_simps)

lemma step_rx_frame:
  "rx_frame (step c s inp) =
     (if rx_fsm s = RX_BIT \<and> sample (bus s)
      then set_raw_bits (drop_bit 1 (raw_bits (rx_frame s)) OR
                         push_bit 10 (of_bool (data_i (bus s))))
      else rx_frame s)"
  by (simp add: step_def act_simps)

lemma step_tx_fsm:
  "tx_fsm (step c s inp) =
     (case tx_fsm s of
        TX_IDLE \<Rightarrow>
          if rx_fsm s = RX_IDLE \<and> clock_i (bus s) \<and> out_readable inp then TX_REQUEST
          else TX_IDLE
      | TX_REQUEST \<Rightarrow> if tx_timer s = 0 then TX_BIT else TX_REQUEST
      | TX_BIT \<Rightarrow> if setup_sig (bus s) \<and> tx_bitno s = 10 then TX_ACK else TX_BIT
      | TX_ACK \<Rightarrow> if sample (bus s) then TX_IDLE_WAIT else TX_ACK
      | TX_IDLE_WAIT \<Rightarrow> if clock_i (bus s) then TX_IDLE else TX_IDLE_WAIT)"
  by (cases "tx_fsm s"; simp add: step_def act_simps)


lemma step_tx_frame:
  "tx_frame (step c s inp) =
     (if tx_fsm s = TX_REQUEST \<and> tx_timer s = 0 then prepare_frame (tx_frame s) (out_dout inp)
      else if tx_fsm s = TX_BIT \<and> setup_sig (bus s)
      then set_raw_bits (drop_bit 1 (raw_bits (tx_frame s)))
      else tx_frame s)"
  by (simp add: step_def act_simps)

lemma step_tx_timer:
  "tx_timer (step c s inp) =
     (if tx_fsm s = TX_IDLE \<and> rx_fsm s = RX_IDLE \<and> clock_i (bus s) \<and> out_readable inp
      then (request_cyc c - 1) mod 2 ^ tx_timer_bits c
      else if tx_fsm s = TX_REQUEST then (tx_timer s + 2 ^ tx_timer_bits c - 1) mod 2 ^ tx_timer_bits c
      else tx_timer s)"
  by (simp add: step_def act_simps)

lemma step_clock_o:
  "clock_o (bus (step c s inp)) =
     (if tx_fsm s = TX_IDLE \<and> rx_fsm s = RX_IDLE \<and> clock_i (bus s) \<and> out_readable inp
      then False
      else if tx_fsm s = TX_REQUEST \<and> tx_timer s = 0 then True
      else clock_o (bus s))"
  by (simp add: step_def act_simps bus_sync_def)

lemma step_data_o:
  "data_o (bus (step c s inp)) =
     (if tx_fsm s = TX_REQUEST \<and> tx_timer s = 0 then False
      else if tx_fsm s = TX_BIT \<and> setup_sig (bus s) then bit (raw_bits (tx_frame s)) 0
      else data_o (bus s))"
  by (simp add: step_def act_simps bus_sync_def)

lemma reachable_run: "reachable c s \<Longrightarrow> reachable c (run c s inps)"
  by (induction inps arbitrary: s) (simp_all add: reachable_step)

lemma reachable_mutex:
  "reachable c s \<Longrightarrow> rx_fsm s = RX_IDLE \<or> tx_fsm s = TX_IDLE"
proof (induction rule: reachable.induct)
  case reachable_reset
  show ?case by (simp add: reset_state_def)
next
  case (reachable_step s inp)
  then show ?case
    by (cases "rx_fsm s"; cases "tx_fsm s"; simp add: step_rx_fsm step_tx_fsm)
qed

lemma reachable_edges:
  "reachable c s \<Longrightarrow>
     (sample (bus s) \<longrightarrow> \<not> clock_r (bus s)) \<and> (setup_sig (bus s) \<longrightarrow> clock_r (bus s))"
proof (induction rule: reachable.induct)
  case reachable_reset
  show ?case by (simp add: reset_state_def reset_bus_def)
next
  case (reachable_step s inp)
  show ?case by (simp add: step_bus_regs)
qed

section \<open>Invariants of the reachable states\<close>

lemmas script_defs = pads_def offer_def reset_state_def reset_bus_def

text \<open>
  Claim C1. In every state reachable from reset at most one of the two machines is outside
  IDLE: if the receiving machine is not in IDLE the transmitting machine is in IDLE, and
  if the transmitting machine is not in IDLE the receiving machine is in IDLE.
\<close>

theorem mutual_exclusion:
  assumes "reachable c s"
  shows "(rx_fsm s \<noteq> RX_IDLE \<longrightarrow> tx_fsm s = TX_IDLE) \<and>
         (tx_fsm s \<noteq> TX_IDLE \<longrightarrow> rx_fsm s = RX_IDLE)"
  using reachable_mutex [OF assms] by auto

theorem mutual_exclusion_witness:
  "rx_fsm (run cyc2 reset_state [pads False True, pads False True, pads False True]) \<noteq> RX_IDLE \<and>
   tx_fsm (run cyc2 reset_state [pads False True, pads False True, pads False True]) = TX_IDLE \<and>
   tx_fsm (run cyc2 reset_state [offer 0xF4]) \<noteq> TX_IDLE \<and>
   rx_fsm (run cyc2 reset_state [offer 0xF4]) = RX_IDLE"
proof -
  have a: "rx_fsm (run cyc2 reset_state [pads False True, pads False True, pads False True])
             \<noteq> RX_IDLE"
    by (simp add: script_defs step_rx_fsm step_tx_fsm step_bus_regs)
  have b: "tx_fsm (run cyc2 reset_state [offer 0xF4]) \<noteq> TX_IDLE"
    by (simp add: script_defs step_tx_fsm)
  from a b
    mutual_exclusion [OF reachable_run [OF reachable_reset], of cyc2
      "[pads False True, pads False True, pads False True]"]
    mutual_exclusion [OF reachable_run [OF reachable_reset], of cyc2 "[offer 0xF4]"]
  show ?thesis by blast
qed

text \<open>
  Claim C7. In every reachable state and for both lines, the value driven onto the pad is
  0 whenever the output is enabled: the host pulls a line low (output enabled exactly
  when its output register is low) or releases it, and never drives it high.
\<close>

theorem open_drain:
  assumes "reachable c s"
  shows "(clock_t_oe (outputs_of s inp) \<longrightarrow> clock_t_o (outputs_of s inp) = False) \<and>
         (data_t_oe (outputs_of s inp) \<longrightarrow> data_t_o (outputs_of s inp) = False) \<and>
         clock_t_oe (outputs_of s inp) = (\<not> clock_o (bus s)) \<and>
         data_t_oe (outputs_of s inp) = (\<not> data_o (bus s))"
  by (simp add: outputs_of_def Let_def)

theorem open_drain_witness:
  "clock_t_oe (outputs_of (run cyc2 reset_state [offer 0xF4]) (offer 0xF4)) \<and>
   clock_t_o (outputs_of (run cyc2 reset_state [offer 0xF4]) (offer 0xF4)) = False \<and>
   data_t_oe (outputs_of (run cyc2 reset_state [offer 0xF4, offer 0xF4, offer 0xF4]) (offer 0xF4)) \<and>
   data_t_o (outputs_of (run cyc2 reset_state [offer 0xF4, offer 0xF4, offer 0xF4]) (offer 0xF4))
     = False"
proof -
  have a: "clock_t_oe (outputs_of (run cyc2 reset_state [offer 0xF4]) (offer 0xF4))"
    by (simp add: outputs_of_def Let_def step_clock_o script_defs)
  have b: "data_t_oe (outputs_of (run cyc2 reset_state [offer 0xF4, offer 0xF4, offer 0xF4])
             (offer 0xF4))"
    by (simp add: outputs_of_def Let_def step_data_o step_tx_fsm step_tx_timer step_rx_fsm
          step_bus_regs script_defs cyc2_def cyc3_def)
  from a b
    open_drain [OF reachable_run [OF reachable_reset], of cyc2 "[offer 0xF4]" "offer 0xF4"]
    open_drain [OF reachable_run [OF reachable_reset], of cyc2
      "[offer 0xF4, offer 0xF4, offer 0xF4]" "offer 0xF4"]
  show ?thesis by blast
qed

text \<open>
  Claim C10. In every reachable state the pulses \<open>sample\<close> and \<open>setup\<close> are not both
  asserted.
\<close>

theorem pulses_exclusive:
  assumes "reachable c s"
  shows "\<not> (sample (bus s) \<and> setup_sig (bus s))"
  using reachable_edges [OF assms] by auto

theorem pulses_exclusive_witness:
  "sample (bus (run cyc2 reset_state (replicate 4 (pads False True)))) \<and>
   \<not> setup_sig (bus (run cyc2 reset_state (replicate 4 (pads False True))))"
proof -
  have a: "sample (bus (run cyc2 reset_state (replicate 4 (pads False True))))"
    by (simp add: numeral_eq_Suc step_bus_regs script_defs)
  from a pulses_exclusive [OF reachable_run [OF reachable_reset], of cyc2
      "replicate 4 (pads False True)"]
  show ?thesis by blast
qed

text \<open>
  Claim C8. \<open>sample\<close> is high in a cycle exactly when, in the cycle before, the
  re-registered clock \<open>clock_r\<close> was high and the registered clock \<open>clock_s\<close> was low,
  that is, exactly when \<open>clock_s\<close> was high two cycles before and low one cycle before
  (a fall seen over two consecutive cycles); symmetrically \<open>setup\<close> for a rise. As
  \<open>clock_s\<close> is the synchronised clock \<open>clock_i\<close> one cycle later, the pulse comes
  two cycles after the cycle in which \<open>clock_i\<close> is first seen at its new level. In a
  reachable state neither pulse is high in two consecutive cycles, so each edge gives a
  pulse of exactly one cycle.
\<close>

theorem edge_pulses:
  "(sample (bus (step c s inp)) \<longleftrightarrow> clock_r (bus s) \<and> \<not> clock_s (bus s)) \<and>
   (setup_sig (bus (step c s inp)) \<longleftrightarrow> \<not> clock_r (bus s) \<and> clock_s (bus s)) \<and>
   (sample (bus (step c (step c s inp) inp')) \<longleftrightarrow>
      clock_s (bus s) \<and> \<not> clock_s (bus (step c s inp))) \<and>
   (setup_sig (bus (step c (step c s inp) inp')) \<longleftrightarrow>
      \<not> clock_s (bus s) \<and> clock_s (bus (step c s inp))) \<and>
   (sample (bus (step c (step c (step c s inp) inp') inp'')) \<longleftrightarrow>
      clock_i (bus s) \<and> \<not> clock_i (bus (step c s inp))) \<and>
   (setup_sig (bus (step c (step c (step c s inp) inp') inp'')) \<longleftrightarrow>
      \<not> clock_i (bus s) \<and> clock_i (bus (step c s inp))) \<and>
   (reachable c s \<longrightarrow>
      \<not> (sample (bus s) \<and> sample (bus (step c s inp))) \<and>
      \<not> (setup_sig (bus s) \<and> setup_sig (bus (step c s inp))))"
proof -
  have "reachable c s \<Longrightarrow>
      \<not> (sample (bus s) \<and> sample (bus (step c s inp))) \<and>
      \<not> (setup_sig (bus s) \<and> setup_sig (bus (step c s inp)))"
    using reachable_edges [of c s] by (auto simp: step_bus_regs)
  then show ?thesis
    by (simp add: step_bus_regs)
qed

theorem edge_pulses_witness:
  "sample (bus (run cyc2 reset_state (replicate 4 (pads False True)))) \<and>
   \<not> sample (bus (step cyc2 (run cyc2 reset_state (replicate 4 (pads False True)))
                  (pads False True))) \<and>
   setup_sig (bus (run cyc2 reset_state
                (replicate 4 (pads False True) @ replicate 4 (pads True True)))) \<and>
   \<not> setup_sig (bus (step cyc2 (run cyc2 reset_state
                (replicate 4 (pads False True) @ replicate 4 (pads True True)))
                  (pads True True)))"
proof -
  have a: "sample (bus (run cyc2 reset_state (replicate 4 (pads False True))))"
    by (simp add: numeral_eq_Suc step_bus_regs script_defs)
  have b: "setup_sig (bus (run cyc2 reset_state
                (replicate 4 (pads False True) @ replicate 4 (pads True True))))"
    by (simp add: numeral_eq_Suc step_bus_regs script_defs)
  from a b
    edge_pulses [of cyc2 "run cyc2 reset_state (replicate 4 (pads False True))" "pads False True"]
    edge_pulses [of cyc2 "run cyc2 reset_state
                (replicate 4 (pads False True) @ replicate 4 (pads True True))" "pads True True"]
    reachable_run [OF reachable_reset, of cyc2 "replicate 4 (pads False True)"]
    reachable_run [OF reachable_reset, of cyc2
      "replicate 4 (pads False True) @ replicate 4 (pads True True)"]
  show ?thesis by blast
qed

section \<open>Concrete runs\<close>

lemma replicate_numeral: "replicate (numeral k) x = x # replicate (pred_numeral k) x"
  by (simp add: numeral_eq_Suc)

lemmas run_defs =
  device_frame_def frame_FA_def frame_FA_bad_def device_bit_def pads_def offer_def
  reset_state_def reset_bus_def step_def rx_act_def tx_act_def bus_sync_def Let_def
  set_raw_bits_def raw_bits_def check_frame_def xor_reduce_bits prepare_frame_def
  sys_step_def sys_inputs_def sys_reset_def tx_script_def device_clock_def outputs_of_def
  cyc2_def cyc3_def replicate_numeral

lemma outputs_of_fifo:
  "in_we (outputs_of s inp) =
     (rx_fsm s = RX_FRAME \<and> check_frame (rx_frame s) \<and> in_writable inp)"
  "in_din (outputs_of s inp) =
     (if rx_fsm s = RX_FRAME \<and> check_frame (rx_frame s) \<and> in_writable inp
      then data (rx_frame s) else 0)"
  "out_re (outputs_of s inp) =
     (tx_fsm s = TX_ACK \<and> sample (bus s) \<and> \<not> data_i (bus s))"
  by (simp_all add: outputs_of_def Let_def)

lemma received_FA:
  "rx_fsm (run cyc2 reset_state (device_frame frame_FA @ [pads True True])) = RX_FRAME"
  "rx_frame (run cyc2 reset_state (device_frame frame_FA @ [pads True True])) =
     \<lparr>start = False, data = 0xFA, parity = True, stop = True\<rparr>"
  by (simp_all add: run_defs)

lemma received_FA_bad:
  "rx_fsm (run cyc2 reset_state (device_frame frame_FA_bad @ [pads True True])) = RX_FRAME"
  "rx_frame (run cyc2 reset_state (device_frame frame_FA_bad @ [pads True True])) =
     \<lparr>start = False, data = 0xFA, parity = False, stop = True\<rparr>"
  by (simp_all add: run_defs)

lemma check_FA:
  "check_frame \<lparr>start = False, data = 0xFA, parity = True, stop = True\<rparr>"
  "\<not> check_frame \<lparr>start = False, data = 0xFA, parity = False, stop = True\<rparr>"
  by (simp_all add: check_frame_def xor_reduce_bits)

section \<open>The receiving machine\<close>

text \<open>
  Claim C2, as the gateware has it. In FRAME with a valid frame and no space in the
  inbound queue nothing is written and the machine stays in FRAME with the frame
  unchanged: the byte waits for space and is not dropped. The machine goes to IDLE-WAIT
  in the tick in which the queue has space, writing the byte, or at once when the frame is
  invalid, writing nothing.
\<close>

theorem rx_frame_waits_for_space:
  assumes "rx_fsm s = RX_FRAME"
  shows "(check_frame (rx_frame s) \<and> \<not> in_writable inp \<longrightarrow>
            \<not> in_we (outputs_of s inp) \<and> rx_fsm (step c s inp) = RX_FRAME \<and>
            rx_frame (step c s inp) = rx_frame s) \<and>
         (check_frame (rx_frame s) \<and> in_writable inp \<longrightarrow>
            in_we (outputs_of s inp) \<and> in_din (outputs_of s inp) = data (rx_frame s) \<and>
            rx_fsm (step c s inp) = RX_IDLE_WAIT) \<and>
         (\<not> check_frame (rx_frame s) \<longrightarrow>
            \<not> in_we (outputs_of s inp) \<and> rx_fsm (step c s inp) = RX_IDLE_WAIT)"
  using assms by (simp add: outputs_of_fifo step_rx_fsm step_rx_frame)

theorem rx_frame_waits_for_space_witness:
  "rx_fsm (step cyc2 (run cyc2 reset_state (device_frame frame_FA @ [pads True True]))
             (pads True True)) = RX_FRAME \<and>
   in_we (outputs_of (run cyc2 reset_state (device_frame frame_FA @ [pads True True]))
            (offer 0)) \<and>
   rx_fsm (step cyc2 (run cyc2 reset_state (device_frame frame_FA @ [pads True True]))
             (offer 0)) = RX_IDLE_WAIT \<and>
   \<not> in_we (outputs_of (run cyc2 reset_state (device_frame frame_FA_bad @ [pads True True]))
              (offer 0)) \<and>
   rx_fsm (step cyc2 (run cyc2 reset_state (device_frame frame_FA_bad @ [pads True True]))
             (offer 0)) = RX_IDLE_WAIT"
proof -
  have w: "\<not> in_writable (pads True True)" "in_writable (offer 0)"
    by (simp_all add: pads_def offer_def)
  from w
    rx_frame_waits_for_space [OF received_FA(1), of "pads True True" cyc2]
    rx_frame_waits_for_space [OF received_FA(1), of "offer 0" cyc2]
    rx_frame_waits_for_space [OF received_FA_bad(1), of "offer 0" cyc2]
  show ?thesis
    by (simp add: received_FA received_FA_bad check_FA)
qed

text \<open>
  The claim as stated fails: after the frame of the byte 0xFA has been received with the
  inbound queue full, the machine is in FRAME with a valid frame, and the next tick with
  the queue still full leaves it in FRAME, not in IDLE-WAIT. Five ticks later the byte is
  still there and is written as soon as the queue has space.
\<close>

theorem rx_queue_full_counterexample:
  "rx_fsm (run cyc2 reset_state (device_frame frame_FA @ [pads True True])) = RX_FRAME \<and>
   check_frame (rx_frame (run cyc2 reset_state (device_frame frame_FA @ [pads True True]))) \<and>
   \<not> in_writable (pads True True) \<and>
   rx_fsm (step cyc2 (run cyc2 reset_state (device_frame frame_FA @ [pads True True]))
             (pads True True)) \<noteq> RX_IDLE_WAIT \<and>
   in_we (outputs_of
     (run cyc2 reset_state (device_frame frame_FA @ replicate 6 (pads True True))) (offer 0)) \<and>
   in_din (outputs_of
     (run cyc2 reset_state (device_frame frame_FA @ replicate 6 (pads True True))) (offer 0))
     = 0xFA"
proof -
  have w: "\<not> in_writable (pads True True)"
    by (simp add: pads_def)
  have "rx_fsm (step cyc2 (run cyc2 reset_state (device_frame frame_FA @ [pads True True]))
             (pads True True)) = RX_FRAME"
    using w by (simp add: step_rx_fsm received_FA check_FA)
  moreover have "in_we (outputs_of
     (run cyc2 reset_state (device_frame frame_FA @ replicate 6 (pads True True))) (offer 0))"
    by (simp add: run_defs)
  moreover have "in_din (outputs_of
     (run cyc2 reset_state (device_frame frame_FA @ replicate 6 (pads True True))) (offer 0))
     = 0xFA"
    by (simp add: run_defs)
  ultimately show ?thesis
    using w by (simp add: received_FA check_FA)
qed

section \<open>The transmitting machine\<close>

lemma sys_step_core: "core (sys_step c sy inp) = step c (core sy) (sys_inputs sy inp)"
  by (simp add: sys_step_def Let_def)

lemma sys_step_out_fifo:
  "out_fifo (sys_step c sy inp) =
     (if tx_fsm (core sy) = TX_ACK \<and> sample (bus (core sy)) \<and> \<not> data_i (bus (core sy))
      then tl (out_fifo sy) else out_fifo sy)"
  by (simp add: sys_step_def Let_def outputs_of_fifo)

lemma sys_inputs_fifo:
  "out_readable (sys_inputs sy inp) = (out_fifo sy \<noteq> [])"
  "out_dout (sys_inputs sy inp) = (case out_fifo sy of [] \<Rightarrow> 0 | b # _ \<Rightarrow> b)"
  by (simp_all add: sys_inputs_def)

text \<open>
  Claim C5, as the gateware has it. In ACK, in the tick of the next \<open>sample\<close> pulse, the
  byte is taken from the outbound queue exactly when the data line reads low, and the
  machine goes to IDLE-WAIT in both cases. When the data line reads high the queue is
  left as it is, with the byte at its head; there the machine finds it again: back in
  IDLE on an idle bus it starts a request, and at the end of the request it loads the
  frame of the byte at the head of the queue.
\<close>

theorem tx_ack_commit:
  assumes "tx_fsm (core sy) = TX_ACK" and "sample (bus (core sy))"
  shows "out_re (outputs_of (core sy) (sys_inputs sy inp)) = (\<not> data_i (bus (core sy))) \<and>
         tx_fsm (core (sys_step c sy inp)) = TX_IDLE_WAIT \<and>
         (\<not> data_i (bus (core sy)) \<longrightarrow> out_fifo (sys_step c sy inp) = tl (out_fifo sy)) \<and>
         (data_i (bus (core sy)) \<longrightarrow> out_fifo (sys_step c sy inp) = out_fifo sy) \<and>
         (tx_fsm (core sy') = TX_IDLE \<and> rx_fsm (core sy') = RX_IDLE \<and>
          clock_i (bus (core sy')) \<and> out_fifo sy' \<noteq> [] \<longrightarrow>
            tx_fsm (core (sys_step c sy' inp)) = TX_REQUEST) \<and>
         (tx_fsm (core sy') = TX_REQUEST \<and> tx_timer (core sy') = 0 \<and>
          out_fifo sy' = b # q \<longrightarrow>
            tx_fsm (core (sys_step c sy' inp)) = TX_BIT \<and>
            tx_frame (core (sys_step c sy' inp)) = prepare_frame (tx_frame (core sy')) b)"
  using assms
  by (simp add: outputs_of_fifo sys_step_core sys_step_out_fifo sys_inputs_fifo
        step_tx_fsm step_tx_frame)


lemma nak_run:
  "tx_fsm (core (sys_run cyc2 (sys_reset [0xF4]) (tx_script True))) = TX_ACK"
  "sample (bus (core (sys_run cyc2 (sys_reset [0xF4]) (tx_script True))))"
  "data_i (bus (core (sys_run cyc2 (sys_reset [0xF4]) (tx_script True))))"
  "out_fifo (sys_run cyc2 (sys_reset [0xF4]) (tx_script True)) = [0xF4]"
  by (simp_all add: run_defs)

lemma ack_run:
  "tx_fsm (core (sys_run cyc2 (sys_reset [0xF4]) (tx_script False))) = TX_ACK"
  "sample (bus (core (sys_run cyc2 (sys_reset [0xF4]) (tx_script False))))"
  "\<not> data_i (bus (core (sys_run cyc2 (sys_reset [0xF4]) (tx_script False))))"
  "out_fifo (sys_run cyc2 (sys_reset [0xF4]) (tx_script False)) = [0xF4]"
  by (simp_all add: run_defs)

lemma nak_run_idle:
  "tx_fsm (core (sys_run cyc2 (sys_reset [0xF4]) (tx_script True @ replicate 3 (pads True True))))
     = TX_IDLE"
  "rx_fsm (core (sys_run cyc2 (sys_reset [0xF4]) (tx_script True @ replicate 3 (pads True True))))
     = RX_IDLE"
  "clock_i (bus (core
     (sys_run cyc2 (sys_reset [0xF4]) (tx_script True @ replicate 3 (pads True True)))))"
  "out_fifo (sys_run cyc2 (sys_reset [0xF4]) (tx_script True @ replicate 3 (pads True True)))
     = [0xF4]"
  by (simp_all add: run_defs)

lemma nak_run_request:
  "tx_fsm (core (sys_run cyc2 (sys_reset [0xF4]) (tx_script True @ replicate 5 (pads True True))))
     = TX_REQUEST"
  "tx_timer (core
     (sys_run cyc2 (sys_reset [0xF4]) (tx_script True @ replicate 5 (pads True True)))) = 0"
  "out_fifo (sys_run cyc2 (sys_reset [0xF4]) (tx_script True @ replicate 5 (pads True True)))
     = [0xF4]"
  by (simp_all add: run_defs)

theorem tx_ack_commit_witness:
  "tx_fsm (core (sys_step cyc2 (sys_run cyc2 (sys_reset [0xF4]) (tx_script True))
      (pads True True))) = TX_IDLE_WAIT \<and>
   out_fifo (sys_step cyc2 (sys_run cyc2 (sys_reset [0xF4]) (tx_script True))
      (pads True True)) = [0xF4] \<and>
   tx_fsm (core (sys_step cyc2 (sys_run cyc2 (sys_reset [0xF4]) (tx_script False))
      (pads True True))) = TX_IDLE_WAIT \<and>
   out_fifo (sys_step cyc2 (sys_run cyc2 (sys_reset [0xF4]) (tx_script False))
      (pads True True)) = [] \<and>
   tx_fsm (core (sys_step cyc2
      (sys_run cyc2 (sys_reset [0xF4]) (tx_script True @ replicate 3 (pads True True)))
      (pads True True))) = TX_REQUEST \<and>
   data (tx_frame (core (sys_step cyc2
      (sys_run cyc2 (sys_reset [0xF4]) (tx_script True @ replicate 5 (pads True True)))
      (pads True True)))) = 0xF4"
  using
    tx_ack_commit [OF nak_run(1) nak_run(2), of "pads True True" cyc2
      "sys_run cyc2 (sys_reset [0xF4]) (tx_script True @ replicate 3 (pads True True))"
      "0xF4" "[]"]
    tx_ack_commit [OF ack_run(1) ack_run(2), of "pads True True" cyc2
      "sys_run cyc2 (sys_reset [0xF4]) (tx_script True @ replicate 5 (pads True True))"
      "0xF4" "[]"]
  by (simp add: nak_run ack_run nak_run_idle nak_run_request prepare_frame_def)

text \<open>
  The claim as stated fails in its words "no retry occurs". With the byte 0xF4 in the
  outbound queue the host sends it (its frame is loaded after three ticks). The
  peripheral clocks the frame in and leaves the data line high in the acknowledge bit.
  The host goes to IDLE-WAIT without taking the byte from the queue, and six ticks after
  the acknowledge bit it has requested to send again and loaded the frame of the same
  byte 0xF4: it sends the byte again.
\<close>

theorem tx_nak_retry_counterexample:
  "data (tx_frame (core (sys_run cyc2 (sys_reset [0xF4]) (replicate 3 (pads True True))))) = 0xF4 \<and>
   tx_fsm (core (sys_run cyc2 (sys_reset [0xF4]) (tx_script True))) = TX_ACK \<and>
   sample (bus (core (sys_run cyc2 (sys_reset [0xF4]) (tx_script True)))) \<and>
   data_i (bus (core (sys_run cyc2 (sys_reset [0xF4]) (tx_script True)))) \<and>
   tx_fsm (core (sys_run cyc2 (sys_reset [0xF4]) (tx_script True @ [pads True True])))
     = TX_IDLE_WAIT \<and>
   out_fifo (sys_run cyc2 (sys_reset [0xF4]) (tx_script True @ [pads True True])) = [0xF4] \<and>
   tx_fsm (core (sys_run cyc2 (sys_reset [0xF4]) (tx_script True @ replicate 6 (pads True True))))
     = TX_BIT \<and>
   data (tx_frame (core
     (sys_run cyc2 (sys_reset [0xF4]) (tx_script True @ replicate 6 (pads True True))))) = 0xF4 \<and>
   \<not> data_o (bus (core
     (sys_run cyc2 (sys_reset [0xF4]) (tx_script True @ replicate 6 (pads True True)))))"
proof -
  have "data (tx_frame (core (sys_run cyc2 (sys_reset [0xF4]) (replicate 3 (pads True True)))))
          = 0xF4"
    by (simp add: run_defs)
  moreover have
    "tx_fsm (core (sys_run cyc2 (sys_reset [0xF4]) (tx_script True @ [pads True True])))
       = TX_IDLE_WAIT"
    "out_fifo (sys_run cyc2 (sys_reset [0xF4]) (tx_script True @ [pads True True])) = [0xF4]"
    by (simp_all add: run_defs)
  moreover have
    "tx_fsm (core (sys_run cyc2 (sys_reset [0xF4]) (tx_script True @ replicate 6 (pads True True))))
       = TX_BIT"
    "data (tx_frame (core
       (sys_run cyc2 (sys_reset [0xF4]) (tx_script True @ replicate 6 (pads True True))))) = 0xF4"
    "\<not> data_o (bus (core
       (sys_run cyc2 (sys_reset [0xF4]) (tx_script True @ replicate 6 (pads True True)))))"
    by (simp_all add: run_defs)
  ultimately show ?thesis
    by (simp add: nak_run)
qed

section \<open>Counters and the lines of the transmitting machine\<close>

lemma bitno_unat_10: "(w :: 4 word) = 10 \<longleftrightarrow> unat w = 10"
  by (simp add: word_unat_eq_iff)

lemma bitno_succ:
  fixes w :: "4 word"
  assumes "unat w < 10"
  shows "unat (w + 1) = Suc (unat w)"
  using assms by (simp add: unat_word_ariths)








section \<open>The request to send\<close>


lemma signal_max_Inr: "signal_max m = Inr w \<longleftrightarrow> 2 \<le> m \<and> w = bits_for (m - 1)"
  by (auto simp add: signal_max_def)

lemma signal_max_Inl: "signal_max m = Inl e \<longleftrightarrow> m \<le> 1"
  by (cases e) (auto simp add: signal_max_def)

lemma bitno_signal: "signal_max 11 = Inr 4"
  by (simp add: signal_max_def bits_for_def bit_length.simps)














section \<open>Receiving the bits of a frame\<close>

lemma reachable_rx_bitno:
  "reachable c s \<Longrightarrow> rx_fsm s \<noteq> RX_BIT \<longrightarrow> rx_bitno s = 0"
proof (induction rule: reachable.induct)
  case reachable_reset
  show ?case by (simp add: reset_state_def)
next
  case (reachable_step s inp)
  then show ?case
    by (cases "rx_fsm s"; simp add: step_rx_fsm step_rx_bitno)
qed

lemma rx_shift_bits:
  fixes raw :: "11 word"
  shows "bit (drop_bit 1 raw OR push_bit 10 (of_bool d)) i \<longleftrightarrow>
           (if i < 10 then bit raw (Suc i) else i = 10 \<and> d)"
proof -
  have "bit (drop_bit 1 raw OR push_bit 10 (of_bool d)) i \<longleftrightarrow>
          bit raw (1 + i) \<or> (10 \<le> i \<and> i < 11 \<and> i - 10 = 0 \<and> d)"
    by (simp only: bit_or_iff bit_drop_bit_eq bit_push_bit_iff bit_of_bool_iff comp_def
          possible_bit_word len_bit0 len_num1 len_bit1 conj_assoc) simp
  moreover have "bit raw (1 + i) \<Longrightarrow> 1 + i < 11"
    using bit_imp_le_length [of raw "1 + i"] by simp
  ultimately show ?thesis
    by (cases "i < 10") auto
qed

lemma rx_bit_count:
  assumes "rx_fsm s = RX_BIT" and "unat (rx_bitno s) + samples c s inps \<le> 10"
  shows "rx_fsm (run c s inps) = RX_BIT \<and>
         unat (rx_bitno (run c s inps)) = unat (rx_bitno s) + samples c s inps"
  using assms
proof (induction inps arbitrary: s)
  case Nil
  then show ?case by simp
next
  case (Cons inp inps)
  show ?case
  proof (cases "sample (bus s)")
    case False
    with Cons.prems have "rx_fsm (step c s inp) = RX_BIT" "rx_bitno (step c s inp) = rx_bitno s"
      by (simp_all add: step_rx_fsm step_rx_bitno)
    with Cons.IH [of "step c s inp"] Cons.prems False show ?thesis
      by simp
  next
    case True
    with Cons.prems have lt: "unat (rx_bitno s) < 10"
      by simp
    then have ne: "rx_bitno s \<noteq> 10"
      by (simp add: bitno_unat_10)
    from Cons.prems ne have fsm: "rx_fsm (step c s inp) = RX_BIT"
      by (simp add: step_rx_fsm)
    from Cons.prems True ne bitno_succ [OF lt]
    have no: "unat (rx_bitno (step c s inp)) = Suc (unat (rx_bitno s))"
      by (simp add: step_rx_bitno)
    from Cons.prems True no
    have "unat (rx_bitno (step c s inp)) + samples c (step c s inp) inps \<le> 10"
      by simp
    from Cons.IH [OF fsm this] no True show ?thesis
      by simp
  qed
qed

lemma length_sampled: "length (sampled c s inps) = samples c s inps"
  by (induction inps arbitrary: s) simp_all

lemma rx_bit_collect:
  assumes "rx_fsm s = RX_BIT" and "unat (rx_bitno s) + samples c s inps \<le> 10"
    and "i < 11"
  shows "bit (raw_bits (rx_frame (run c s inps))) i =
           (if i + samples c s inps < 11 then bit (raw_bits (rx_frame s)) (i + samples c s inps)
            else sampled c s inps ! (i + samples c s inps - 11))"
  using assms
proof (induction inps arbitrary: s)
  case Nil
  then show ?case by simp
next
  case (Cons inp inps)
  show ?case
  proof (cases "sample (bus s)")
    case False
    with Cons.prems have "rx_fsm (step c s inp) = RX_BIT"
      "rx_bitno (step c s inp) = rx_bitno s" "rx_frame (step c s inp) = rx_frame s"
      by (simp_all add: step_rx_fsm step_rx_bitno step_rx_frame)
    with Cons.IH [of "step c s inp"] Cons.prems False show ?thesis
      by simp
  next
    case True
    with Cons.prems have lt: "unat (rx_bitno s) < 10"
      by simp
    then have ne: "rx_bitno s \<noteq> 10"
      by (simp add: bitno_unat_10)
    from Cons.prems ne have fsm: "rx_fsm (step c s inp) = RX_BIT"
      by (simp add: step_rx_fsm)
    from Cons.prems True ne bitno_succ [OF lt]
    have no: "unat (rx_bitno (step c s inp)) = Suc (unat (rx_bitno s))"
      by (simp add: step_rx_bitno)
    from Cons.prems True no
    have le: "unat (rx_bitno (step c s inp)) + samples c (step c s inp) inps \<le> 10"
      by simp
    have fr: "raw_bits (rx_frame (step c s inp)) =
        (drop_bit 1 (raw_bits (rx_frame s)) OR push_bit 10 (of_bool (data_i (bus s))))"
      using Cons.prems True by (simp add: step_rx_frame)
    have raw: "bit (raw_bits (rx_frame (step c s inp))) j =
        (if j < 10 then bit (raw_bits (rx_frame s)) (Suc j) else j = 10 \<and> data_i (bus s))" for j
      by (simp only: fr rx_shift_bits)
    define n where "n = samples c (step c s inp) inps"
    note ih = Cons.IH [OF fsm le \<open>i < 11\<close>, folded n_def]
    have run: "run c s (inp # inps) = run c (step c s inp) inps"
      by simp
    have cnt: "samples c s (inp # inps) = Suc n"
      using True by (simp add: n_def)
    have smp: "sampled c s (inp # inps) = data_i (bus s) # sampled c (step c s inp) inps"
      using True by simp
    consider "i + n < 10" | "i + n = 10" | "11 \<le> i + n"
      by linarith
    then show ?thesis
    proof cases
      case 1
      with ih raw [of "i + n"] show ?thesis
        by (simp only: run cnt smp) simp
    next
      case 2
      with ih raw [of "i + n"] show ?thesis
        by (simp only: run cnt smp) simp
    next
      case 3
      then have "i + Suc n - 11 = Suc (i + n - 11)" by simp
      with 3 ih show ?thesis
        by (simp only: run cnt smp) simp
    qed
  qed
qed

lemma rx_frame_collected:
  assumes "rx_fsm s = RX_BIT" and "rx_bitno s = 0" and "samples c s inps = 10"
    and "sample (bus (run c s inps))" and "i < 11"
  shows "bit (raw_bits (rx_frame (step c (run c s inps) inp))) i =
           (sampled c s inps @ [data_i (bus (run c s inps))]) ! i"
proof -
  from assms(1-3) have bit_run: "rx_fsm (run c s inps) = RX_BIT"
    using rx_bit_count [of s c inps] by simp
  have len: "length (sampled c s inps) = 10"
    using assms(3) by (simp add: length_sampled)
  have fr: "raw_bits (rx_frame (step c (run c s inps) inp)) =
      (drop_bit 1 (raw_bits (rx_frame (run c s inps))) OR
       push_bit 10 (of_bool (data_i (bus (run c s inps)))))"
    using bit_run assms(4) by (simp add: step_rx_frame)
  have raw: "bit (raw_bits (rx_frame (step c (run c s inps) inp))) i =
      (if i < 10 then bit (raw_bits (rx_frame (run c s inps))) (Suc i)
       else i = 10 \<and> data_i (bus (run c s inps)))"
    by (simp only: fr rx_shift_bits)
  show ?thesis
  proof (cases "i < 10")
    case True
    then have "Suc i < 11" by simp
    from rx_bit_collect [OF assms(1) _ this, of c inps] assms(2,3) True
    have "bit (raw_bits (rx_frame (run c s inps))) (Suc i) = sampled c s inps ! i"
      by simp
    with True raw len show ?thesis
      by (simp add: nth_append)
  next
    case False
    with assms(5) have "i = 10" by simp
    with raw len show ?thesis
      by (simp add: nth_append)
  qed
qed

lemma frame_fields_raw:
  "start f = bit (raw_bits f) 0"
  "j < 8 \<Longrightarrow> bit (data f) j = bit (raw_bits f) (Suc j)"
  "parity f = bit (raw_bits f) 9"
  "stop f = bit (raw_bits f) 10"
  by (simp_all add: raw_bits_bit)


text \<open>
  Claim C6. In BIT, a tick with the \<open>sample\<close> pulse shifts the frame register down by
  one bit and puts the data line into its top bit, bit 10; it increments the bit counter,
  or, when the counter is 10, resets it and goes to FRAME. A tick without the pulse
  changes nothing. The machine enters BIT with the counter at 0, so it stays in BIT
  while it has seen at most ten pulses and goes to FRAME in the tick of the eleventh.
  The frame then holds the eleven levels read, the first in bit 0: the first is the
  start bit, the next eight are the data byte from its bit 0 upwards, then the parity
  and the stop bit.
\<close>

theorem rx_bit_shift:
  assumes "rx_fsm s = RX_BIT"
  shows
    "(sample (bus s) \<longrightarrow>
        raw_bits (rx_frame (step c s inp)) =
          (drop_bit 1 (raw_bits (rx_frame s)) OR push_bit 10 (of_bool (data_i (bus s)))) \<and>
        bit (raw_bits (rx_frame (step c s inp))) 10 = data_i (bus s) \<and>
        (\<forall>i<10. bit (raw_bits (rx_frame (step c s inp))) i
                   = bit (raw_bits (rx_frame s)) (Suc i)) \<and>
        (rx_bitno s \<noteq> 10 \<longrightarrow>
           rx_bitno (step c s inp) = rx_bitno s + 1 \<and> rx_fsm (step c s inp) = RX_BIT) \<and>
        (rx_bitno s = 10 \<longrightarrow>
           rx_bitno (step c s inp) = 0 \<and> rx_fsm (step c s inp) = RX_FRAME)) \<and>
     (\<not> sample (bus s) \<longrightarrow>
        rx_frame (step c s inp) = rx_frame s \<and> rx_bitno (step c s inp) = rx_bitno s \<and>
        rx_fsm (step c s inp) = RX_BIT) \<and>
     (reachable c s0 \<and> rx_fsm s0 \<noteq> RX_BIT \<and> s = step c s0 inp0 \<longrightarrow> rx_bitno s = 0) \<and>
     (rx_bitno s = 0 \<and> samples c s inps \<le> 10 \<longrightarrow>
        rx_fsm (run c s inps) = RX_BIT \<and>
        unat (rx_bitno (run c s inps)) = samples c s inps) \<and>
     (rx_bitno s = 0 \<and> samples c s inps = 10 \<and> sample (bus (run c s inps)) \<longrightarrow>
        rx_fsm (step c (run c s inps) inp) = RX_FRAME \<and>
        rx_bitno (step c (run c s inps) inp) = 0 \<and>
        start (rx_frame (step c (run c s inps) inp)) =
          (sampled c s inps @ [data_i (bus (run c s inps))]) ! 0 \<and>
        (\<forall>j<8. bit (data (rx_frame (step c (run c s inps) inp))) j =
                  (sampled c s inps @ [data_i (bus (run c s inps))]) ! Suc j) \<and>
        parity (rx_frame (step c (run c s inps) inp)) =
          (sampled c s inps @ [data_i (bus (run c s inps))]) ! 9 \<and>
        stop (rx_frame (step c (run c s inps) inp)) =
          (sampled c s inps @ [data_i (bus (run c s inps))]) ! 10)"
    (is "?step \<and> ?quiet \<and> ?entry \<and> ?ten \<and> ?eleven")
proof -
  have shift: "sample (bus s) \<Longrightarrow>
      raw_bits (rx_frame (step c s inp)) =
        (drop_bit 1 (raw_bits (rx_frame s)) OR push_bit 10 (of_bool (data_i (bus s))))"
    using assms by (simp add: step_rx_frame)
  have top: "sample (bus s) \<Longrightarrow> bit (raw_bits (rx_frame (step c s inp))) 10 = data_i (bus s)"
    by (simp only: shift rx_shift_bits) simp
  have low: "sample (bus s) \<Longrightarrow> i < 10 \<Longrightarrow>
      bit (raw_bits (rx_frame (step c s inp))) i = bit (raw_bits (rx_frame s)) (Suc i)" for i
    by (simp only: shift rx_shift_bits) simp
  have count: "sample (bus s) \<Longrightarrow>
      (rx_bitno s \<noteq> 10 \<longrightarrow>
         rx_bitno (step c s inp) = rx_bitno s + 1 \<and> rx_fsm (step c s inp) = RX_BIT) \<and>
      (rx_bitno s = 10 \<longrightarrow>
         rx_bitno (step c s inp) = 0 \<and> rx_fsm (step c s inp) = RX_FRAME)"
    using assms by (simp add: step_rx_fsm step_rx_bitno)
  have idle: "\<not> sample (bus s) \<Longrightarrow>
      rx_frame (step c s inp) = rx_frame s \<and> rx_bitno (step c s inp) = rx_bitno s \<and>
      rx_fsm (step c s inp) = RX_BIT"
    using assms by (simp add: step_rx_fsm step_rx_bitno step_rx_frame)
  have entry: "reachable c s0 \<Longrightarrow> rx_fsm s0 \<noteq> RX_BIT \<Longrightarrow> s = step c s0 inp0 \<Longrightarrow>
      rx_bitno s = 0"
    using reachable_rx_bitno [of c s0] by (simp add: step_rx_bitno)
  have ten: "rx_bitno s = 0 \<Longrightarrow> samples c s inps \<le> 10 \<Longrightarrow>
      rx_fsm (run c s inps) = RX_BIT \<and> unat (rx_bitno (run c s inps)) = samples c s inps"
    using rx_bit_count [OF assms, of c inps] by simp
  have eleven: "rx_bitno s = 0 \<Longrightarrow> samples c s inps = 10 \<Longrightarrow> sample (bus (run c s inps)) \<Longrightarrow>
      rx_fsm (step c (run c s inps) inp) = RX_FRAME \<and>
      rx_bitno (step c (run c s inps) inp) = 0"
    using ten by (simp add: step_rx_fsm step_rx_bitno bitno_unat_10)
  have fields: "rx_bitno s = 0 \<Longrightarrow> samples c s inps = 10 \<Longrightarrow> sample (bus (run c s inps)) \<Longrightarrow>
      start (rx_frame (step c (run c s inps) inp)) =
        (sampled c s inps @ [data_i (bus (run c s inps))]) ! 0 \<and>
      (\<forall>j<8. bit (data (rx_frame (step c (run c s inps) inp))) j =
                (sampled c s inps @ [data_i (bus (run c s inps))]) ! Suc j) \<and>
      parity (rx_frame (step c (run c s inps) inp)) =
        (sampled c s inps @ [data_i (bus (run c s inps))]) ! 9 \<and>
      stop (rx_frame (step c (run c s inps) inp)) =
        (sampled c s inps @ [data_i (bus (run c s inps))]) ! 10"
    using rx_frame_collected [OF assms, of c inps _ inp]
    by (simp add: frame_fields_raw)
  from shift top low count have 1: ?step by blast
  from idle have 2: ?quiet by blast
  from entry have 3: ?entry by blast
  from ten have 4: ?ten by blast
  from eleven fields have 5: ?eleven by blast
  show ?thesis
    by (rule conjI [OF 1 conjI [OF 2 conjI [OF 3 conjI [OF 4 5]]]])
qed

theorem rx_bit_shift_witness:
  "rx_fsm (run cyc2 reset_state (take 3 (device_frame frame_FA))) = RX_BIT \<and>
   rx_bitno (run cyc2 reset_state (take 3 (device_frame frame_FA))) = 0 \<and>
   rx_frame (step cyc2 (run cyc2 reset_state (take 3 (device_frame frame_FA))) (pads True True))
     = rx_frame (run cyc2 reset_state (take 3 (device_frame frame_FA))) \<and>
   samples cyc2 (run cyc2 reset_state (take 3 (device_frame frame_FA)))
     (drop 3 (device_frame frame_FA)) = 10 \<and>
   rx_fsm (run cyc2 (run cyc2 reset_state (take 3 (device_frame frame_FA)))
     (drop 3 (device_frame frame_FA))) = RX_BIT \<and>
   rx_fsm (step cyc2 (run cyc2 (run cyc2 reset_state (take 3 (device_frame frame_FA)))
     (drop 3 (device_frame frame_FA))) (pads True True)) = RX_FRAME \<and>
   \<not> start (rx_frame (step cyc2 (run cyc2 (run cyc2 reset_state (take 3 (device_frame frame_FA)))
     (drop 3 (device_frame frame_FA))) (pads True True))) \<and>
   bit (data (rx_frame (step cyc2 (run cyc2 (run cyc2 reset_state (take 3 (device_frame frame_FA)))
     (drop 3 (device_frame frame_FA))) (pads True True)))) 1 \<and>
   stop (rx_frame (step cyc2 (run cyc2 (run cyc2 reset_state (take 3 (device_frame frame_FA)))
     (drop 3 (device_frame frame_FA))) (pads True True))) \<and>
   rx_bitno (step cyc2 (run cyc2 reset_state (take 4 (device_frame frame_FA))) (pads True True))
     = 1 \<and>
   rx_fsm (step cyc2 (run cyc2 reset_state (device_frame frame_FA)) (pads True True)) = RX_FRAME \<and>
   bit (raw_bits (rx_frame
     (step cyc2 (run cyc2 reset_state (device_frame frame_FA)) (pads True True)))) 10"
proof -
  have s3: "rx_fsm (run cyc2 reset_state (take 3 (device_frame frame_FA))) = RX_BIT"
    and quiet: "\<not> sample (bus (run cyc2 reset_state (take 3 (device_frame frame_FA))))"
    and s2: "rx_fsm (run cyc2 reset_state (take 2 (device_frame frame_FA))) \<noteq> RX_BIT"
    and enter: "run cyc2 reset_state (take 3 (device_frame frame_FA)) =
      step cyc2 (run cyc2 reset_state (take 2 (device_frame frame_FA))) (pads True False)"
    and ten: "samples cyc2 (run cyc2 reset_state (take 3 (device_frame frame_FA)))
      (drop 3 (device_frame frame_FA)) = 10"
    and pulse: "sample (bus (run cyc2 (run cyc2 reset_state (take 3 (device_frame frame_FA)))
      (drop 3 (device_frame frame_FA))))"
    and levels: "sampled cyc2 (run cyc2 reset_state (take 3 (device_frame frame_FA)))
      (drop 3 (device_frame frame_FA)) @
      [data_i (bus (run cyc2 (run cyc2 reset_state (take 3 (device_frame frame_FA)))
        (drop 3 (device_frame frame_FA))))] = frame_FA"
    by (simp_all add: run_defs)
  have s4: "rx_fsm (run cyc2 reset_state (take 4 (device_frame frame_FA))) = RX_BIT"
    and pulse4: "sample (bus (run cyc2 reset_state (take 4 (device_frame frame_FA))))"
    and no4: "rx_bitno (run cyc2 reset_state (take 4 (device_frame frame_FA))) = 0"
    by (simp_all add: run_defs)
  have s44: "rx_fsm (run cyc2 reset_state (device_frame frame_FA)) = RX_BIT"
    and pulse44: "sample (bus (run cyc2 reset_state (device_frame frame_FA)))"
    and no44: "rx_bitno (run cyc2 reset_state (device_frame frame_FA)) = 10"
    and data44: "data_i (bus (run cyc2 reset_state (device_frame frame_FA)))"
    by (simp_all add: run_defs)
  note r2 = reachable_run [OF reachable_reset, of cyc2 "take 2 (device_frame frame_FA)"]
  from quiet s2 enter ten pulse levels r2
    rx_bit_shift [OF s3, where c = cyc2 and inp = "pads True True"
      and ?s0.0 = "run cyc2 reset_state (take 2 (device_frame frame_FA))"
      and inp0 = "pads True False" and inps = "drop 3 (device_frame frame_FA)"]
  have a: "rx_bitno (run cyc2 reset_state (take 3 (device_frame frame_FA))) = 0 \<and>
    rx_frame (step cyc2 (run cyc2 reset_state (take 3 (device_frame frame_FA))) (pads True True))
      = rx_frame (run cyc2 reset_state (take 3 (device_frame frame_FA))) \<and>
    rx_fsm (run cyc2 (run cyc2 reset_state (take 3 (device_frame frame_FA)))
      (drop 3 (device_frame frame_FA))) = RX_BIT \<and>
    rx_fsm (step cyc2 (run cyc2 (run cyc2 reset_state (take 3 (device_frame frame_FA)))
      (drop 3 (device_frame frame_FA))) (pads True True)) = RX_FRAME \<and>
    start (rx_frame (step cyc2 (run cyc2 (run cyc2 reset_state (take 3 (device_frame frame_FA)))
      (drop 3 (device_frame frame_FA))) (pads True True))) = frame_FA ! 0 \<and>
    bit (data (rx_frame (step cyc2 (run cyc2 (run cyc2 reset_state (take 3 (device_frame frame_FA)))
      (drop 3 (device_frame frame_FA))) (pads True True)))) 1 = frame_FA ! Suc 1 \<and>
    stop (rx_frame (step cyc2 (run cyc2 (run cyc2 reset_state (take 3 (device_frame frame_FA)))
      (drop 3 (device_frame frame_FA))) (pads True True))) = frame_FA ! 10"
    by simp
  have fa: "frame_FA ! 0 = False" "frame_FA ! Suc 1 = True" "frame_FA ! 10 = True"
    by (simp_all add: frame_FA_def)
  from pulse4 no4
    rx_bit_shift [OF s4, where c = cyc2 and inp = "pads True True"]
  have b: "rx_bitno (step cyc2 (run cyc2 reset_state (take 4 (device_frame frame_FA)))
      (pads True True)) = 1"
    by simp
  from pulse44 no44 data44
    rx_bit_shift [OF s44, where c = cyc2 and inp = "pads True True"]
  have c: "rx_fsm (step cyc2 (run cyc2 reset_state (device_frame frame_FA)) (pads True True))
      = RX_FRAME \<and>
    bit (raw_bits (rx_frame
      (step cyc2 (run cyc2 reset_state (device_frame frame_FA)) (pads True True)))) 10"
    by blast
  from s3 ten a b c fa show ?thesis
    by simp
qed

end
